theory Spec2Isabelle
  imports Main "HOL-Library.Word"
begin

section \<open>The C library as clibase.h uses it\<close>

text \<open>
  \<^verbatim>\<open>clibase.h\<close> reads its input through \<^verbatim>\<open>fgets\<close> and \<^verbatim>\<open>feof\<close>, scans
  NUL-terminated buffers with \<^verbatim>\<open>strlen\<close> and \<^verbatim>\<open>strchr\<close>, classifies characters with
  \<^verbatim>\<open>isdigit\<close> and converts tokens with \<^verbatim>\<open>strtoul\<close>.  These library functions are
  modelled here as far as the header depends on them.
\<close>

type_synonym uint32_t = "32 word"

definition NUL :: char where
  "NUL = CHR 0x00"

definition newline :: char where
  "newline = CHR 0x0A"

text \<open>The characters of a \<^verbatim>\<open>char\<close> buffer seen as a C string: everything before the
  first NUL.\<close>

definition c_str :: "string \<Rightarrow> string" where
  "c_str buf = takeWhile (\<lambda>c. c \<noteq> NUL) buf"

definition isdigit :: "char \<Rightarrow> bool" where
  "isdigit c = (c \<in> set ''0123456789'')"

definition isspace :: "char \<Rightarrow> bool" where
  "isspace c = (c \<in> set [CHR 0x20, CHR 0x09, CHR 0x0A, CHR 0x0B, CHR 0x0C, CHR 0x0D])"

subsection \<open>strtoul\<close>

text \<open>The value of a character as a digit (\<^verbatim>\<open>0-9\<close>, then letters in either case
  for the values 10 to 35).\<close>

definition digit_value :: "char \<Rightarrow> nat option" where
  "digit_value c =
     (let k = (of_char c :: nat) in
      if 48 \<le> k \<and> k \<le> 57 then Some (k - 48)
      else if 97 \<le> k \<and> k \<le> 122 then Some (k - 87)
      else if 65 \<le> k \<and> k \<le> 90 then Some (k - 55)
      else None)"

text \<open>The longest prefix of digits valid in the base, accumulated from the left.\<close>

fun digits_value :: "nat \<Rightarrow> nat \<Rightarrow> string \<Rightarrow> nat" where
  "digits_value b acc [] = acc"
| "digits_value b acc (c # cs) =
     (case digit_value c of
        None \<Rightarrow> acc
      | Some d \<Rightarrow> if d < b then digits_value b (acc * b + d) cs else acc)"

fun has_hex_prefix :: "string \<Rightarrow> bool" where
  "has_hex_prefix (c0 # cx # ch # cs) =
     (c0 = CHR ''0'' \<and> (cx = CHR ''x'' \<or> cx = CHR ''X'') \<and>
      (case digit_value ch of None \<Rightarrow> False | Some d \<Rightarrow> d < 16))"
| "has_hex_prefix cs = False"

text \<open>\<^verbatim>\<open>unsigned long\<close> has 64 bits (the LP64 data model).\<close>

definition ULONG_MAX :: nat where
  "ULONG_MAX = 2 ^ 64 - 1"

text \<open>
  \<^verbatim>\<open>strtoul(nptr, 0, base)\<close>: white space is skipped, a sign is accepted, and with
  base 0 the base is taken from the prefix of the number: \<^verbatim>\<open>0x\<close> for 16, a leading
  \<^verbatim>\<open>0\<close> for 8, otherwise 10.  The conversion stops at the first character that is not
  a digit of the base; a value that does not fit is \<^verbatim>\<open>ULONG_MAX\<close>, and a negated value
  wraps around.
\<close>

definition strtoul :: "string \<Rightarrow> nat \<Rightarrow> nat" where
  "strtoul nptr base =
     (let s0 = dropWhile isspace nptr;
          neg = (s0 \<noteq> [] \<and> hd s0 = CHR ''-'');
          s = (if s0 \<noteq> [] \<and> (hd s0 = CHR ''-'' \<or> hd s0 = CHR ''+'') then tl s0 else s0);
          hex = ((base = 0 \<or> base = 16) \<and> has_hex_prefix s);
          b = (if base \<noteq> 0 then base
               else if hex then 16
               else if s \<noteq> [] \<and> hd s = CHR ''0'' then 8
               else 10);
          v = digits_value b 0 (if hex then drop 2 s else s)
      in if ULONG_MAX < v then ULONG_MAX
         else if neg then (ULONG_MAX + 1 - v) mod (ULONG_MAX + 1)
         else v)"

subsection \<open>Streams: fgets and feof\<close>

text \<open>
  A \<^verbatim>\<open>FILE\<close> is what the reader can observe of it: the bytes the device will still
  deliver, what the device does once they are used up (it reports end-of-file, or every
  further read fails with an error), and the stream's end-of-file indicator, which a
  read that meets the end of the file sets and which stays set.
\<close>

record FILE =
  unread :: string
  device_fails :: bool
  eof_indicator :: bool

text \<open>The characters of a line up to and including its newline.\<close>

fun upto_newline :: "string \<Rightarrow> string" where
  "upto_newline [] = []"
| "upto_newline (c # cs) = (if c = newline then [c] else c # upto_newline cs)"

text \<open>
  \<^verbatim>\<open>fgets(buf, n, f)\<close>: if the end-of-file indicator of the stream is set, the call
  returns the null pointer (\<open>None\<close>) and reads nothing.  Otherwise it stores at most
  \<open>n - 1\<close> characters and stops after a newline.  When the data runs out first, the
  device is asked for more: on a read error the call returns the null pointer; on
  end-of-file the indicator is set, and the call returns the null pointer only if it
  has read nothing.
\<close>

definition fgets :: "nat \<Rightarrow> FILE \<Rightarrow> string option \<times> FILE" where
  "fgets n f =
     (if eof_indicator f then (None, f)
      else
        (let buf = upto_newline (take (n - 1) (unread f));
             f' = f\<lparr>unread := drop (length buf) (unread f)\<rparr>
         in if length buf = n - 1 \<or> (buf \<noteq> [] \<and> last buf = newline) then (Some buf, f')
            else if device_fails f then (None, f')
            else if buf = [] then (None, f'\<lparr>eof_indicator := True\<rparr>)
            else (Some buf, f'\<lparr>eof_indicator := True\<rparr>)))"

definition feof :: "FILE \<Rightarrow> bool" where
  "feof f = eof_indicator f"

section \<open>class Cli: tokens and records\<close>

text \<open>\<^verbatim>\<open>Cli::parseUint\<close>: the token's C string converted with base 0, then narrowed
  from \<^verbatim>\<open>unsigned long\<close> to \<^verbatim>\<open>uint32_t\<close>.\<close>

definition parseUint :: "string \<Rightarrow> uint32_t" where
  "parseUint str = of_nat (strtoul (c_str str) 0)"

definition isValidUint :: "string \<Rightarrow> bool" where
  "isValidUint s = (if length s < 1 then False else list_all isdigit s)"

definition isValidNodeID :: "string \<Rightarrow> bool" where
  "isValidNodeID s = (isValidUint s \<and> parseUint s \<noteq> 0)"

text \<open>
  \<^verbatim>\<open>Cli::splitString\<close>.  Each round of the outer loop skips delimiters, returns at
  the end of the string, and otherwise cuts one word and steps over the delimiter
  behind it.
\<close>

function splitString_loop :: "string \<Rightarrow> string \<Rightarrow> string list \<Rightarrow> string list" where
  "splitString_loop delim str ret =
     (if dropWhile (\<lambda>c. c \<in> set delim) str = [] then ret
      else splitString_loop delim
             (drop 1 (dropWhile (\<lambda>c. c \<notin> set delim) (dropWhile (\<lambda>c. c \<in> set delim) str)))
             (ret @ [takeWhile (\<lambda>c. c \<notin> set delim) (dropWhile (\<lambda>c. c \<in> set delim) str)]))"
  by pat_completeness auto
termination
proof (relation "measure (\<lambda>(delim, str, ret). length str)")
  show "wf (measure (\<lambda>(delim, str, ret). length str))"
    by simp
next
  fix delim str :: string and ret :: "string list"
  let ?s1 = "dropWhile (\<lambda>c. c \<in> set delim) str"
  let ?s2 = "dropWhile (\<lambda>c. c \<notin> set delim) ?s1"
  assume ne: "?s1 \<noteq> []"
  then have "hd ?s1 \<notin> set delim"
    using hd_dropWhile [of "\<lambda>c. c \<in> set delim" str] by simp
  with ne have "length ?s2 < length ?s1"
    by (cases ?s1) (simp_all add: less_Suc_eq_le length_dropWhile_le)
  moreover have "length ?s1 \<le> length str"
    by (rule length_dropWhile_le)
  ultimately have "length (drop 1 ?s2) < length str"
    by simp
  then show "((delim, drop 1 ?s2, ret @ [takeWhile (\<lambda>c. c \<notin> set delim) ?s1]), (delim, str, ret))
      \<in> measure (\<lambda>(delim, str, ret). length str)"
    by simp
qed

definition default_delim :: string where
  "default_delim = [CHR 0x20, CHR 0x0A, CHR 0x09, CHR '','']"

definition splitString :: "string \<Rightarrow> string list" where
  "splitString s = splitString_loop default_delim s []"

text \<open>The token loop of \<^verbatim>\<open>Cli::readUintRecord\<close>: it returns at the first token that
  is not a valid unsigned integer, after the values before it have been pushed.\<close>

fun push_tokens :: "string list \<Rightarrow> uint32_t list \<Rightarrow> bool \<times> uint32_t list" where
  "push_tokens [] ret = (True, ret)"
| "push_tokens (s # strings) ret =
     (if \<not> isValidUint s then (False, ret)
      else push_tokens strings (ret @ [parseUint s]))"

text \<open>
  The line buffer is a C string: \<^verbatim>\<open>strlen\<close> and the tokenizer see it up to its first
  NUL.  The source chomps it first: a newline at its end is cut off.
\<close>

definition chomp :: "string \<Rightarrow> string" where
  "chomp buf =
     (if c_str buf \<noteq> [] \<and> last (c_str buf) = newline then butlast (c_str buf) else c_str buf)"

text \<open>\<^verbatim>\<open>Cli::readUintRecord(f, ret)\<close> returns its result, the stream and the caller's
  vector \<open>ret\<close>.\<close>

definition readUintRecord :: "FILE \<Rightarrow> uint32_t list \<Rightarrow> bool \<times> FILE \<times> uint32_t list" where
  "readUintRecord f ret =
     (case fgets 1024 f of
        (None, f') \<Rightarrow> if \<not> feof f' then (False, f', ret) else (True, f', ret)
      | (Some buf, f') \<Rightarrow>
          (let line = chomp buf;
               strings = splitString line
           in if line \<noteq> [] \<and> strings = [] then (False, f', ret)
              else (case push_tokens strings ret of (b, ret') \<Rightarrow> (b, f', ret'))))"

definition readNodeIDRecord :: "FILE \<Rightarrow> uint32_t list \<Rightarrow> bool \<times> FILE \<times> uint32_t list" where
  "readNodeIDRecord f ret =
     (case readUintRecord f ret of
        (b, f', ret') \<Rightarrow>
          if \<not> b then (False, f', ret')
          else if list_ex (\<lambda>i. i = 0) ret' then (False, f', ret')
          else (True, f', ret'))"

section \<open>class CliCommand\<close>

datatype ReturnType = RT_NONE | RT_ARC_LIST | RT_NODE_LIST | RT_OTHER

text \<open>
  A command object: what its virtual member functions return, and its protected member
  \<^verbatim>\<open>lastStatusMessage\<close>.  \<open>statusHistory\<close> is not a member of the class: it keeps,
  oldest first, every value that was assigned to \<^verbatim>\<open>lastStatusMessage\<close>, so that one can
  say how many status messages a call has recorded.
\<close>

record CliCommand =
  getName :: string
  getSynopsis :: string
  getHelpText :: string
  getReturnType :: ReturnType
  lastStatusMessage :: string
  statusHistory :: "string list"

definition SUCCESS_STR :: string where "SUCCESS_STR = ''OK.''"
definition FAIL_STR :: string where "FAIL_STR = ''FAILED!''"
definition ERROR_STR :: string where "ERROR_STR = ''ERROR!''"
definition NONE_STR :: string where "NONE_STR = ''NONE.''"

text \<open>The macro \<^verbatim>\<open>_\<close> is \<^verbatim>\<open>gettext\<close>; with no message catalogue bound it returns
  its argument.\<close>

definition gettext :: "string \<Rightarrow> string" where
  "gettext msgid = msgid"

text \<open>\<^verbatim>\<open>%u\<close>: an unsigned number in decimal.\<close>

function decimal :: "nat \<Rightarrow> string" where
  "decimal n =
     (if n < 10 then [''0123456789'' ! n]
      else decimal (n div 10) @ [''0123456789'' ! (n mod 10)])"
  by pat_completeness auto
termination
  by (relation "measure (\<lambda>n. n)") auto

text \<open>\<^verbatim>\<open>printf\<close> formatting with one unsigned argument, for formats whose only
  conversion is \<^verbatim>\<open>%u\<close>.\<close>

fun format_u :: "string \<Rightarrow> nat \<Rightarrow> string" where
  "format_u [] n = []"
| "format_u [c] n = [c]"
| "format_u (c # d # cs) n =
     (if c = CHR ''%'' \<and> d = CHR ''u'' then decimal n @ cs
      else c # format_u (d # cs) n)"

text \<open>
  The macro \<^verbatim>\<open>cliMessage(str, x...)\<close> prints the prefix, a blank and the formatted
  text \<open>x\<close> into a buffer of 2048 characters and assigns the buffer to
  \<^verbatim>\<open>lastStatusMessage\<close>.
\<close>

definition message_buffer :: "string \<Rightarrow> string \<Rightarrow> string" where
  "message_buffer str x = c_str (take 2047 (str @ '' '' @ x))"

definition cliMessage :: "string \<Rightarrow> string \<Rightarrow> CliCommand \<Rightarrow> CliCommand" where
  "cliMessage str x this =
     (let c = message_buffer str x
      in this\<lparr>lastStatusMessage := c, statusHistory := statusHistory this @ [c]\<rparr>)"

definition cliSuccess :: "string \<Rightarrow> CliCommand \<Rightarrow> CliCommand" where
  "cliSuccess x this = cliMessage SUCCESS_STR x this"

definition cliFailure :: "string \<Rightarrow> CliCommand \<Rightarrow> CliCommand" where
  "cliFailure x this = cliMessage FAIL_STR x this"

definition cliError :: "string \<Rightarrow> CliCommand \<Rightarrow> CliCommand" where
  "cliError x this = cliMessage ERROR_STR x this"

definition cliNone :: "string \<Rightarrow> CliCommand \<Rightarrow> CliCommand" where
  "cliNone x this = cliMessage NONE_STR x this"

text \<open>\<^verbatim>\<open>CliCommand::syntaxError\<close>, on the command and the characters written to
  \<^verbatim>\<open>std::cout\<close> so far.\<close>

definition syntaxError :: "CliCommand \<Rightarrow> string \<Rightarrow> CliCommand \<times> string" where
  "syntaxError this cout =
     (let msg = FAIL_STR @ gettext '' Syntax: '' @ getSynopsis this @ [newline];
          this' = this\<lparr>lastStatusMessage := msg, statusHistory := statusHistory this @ [msg]\<rparr>
      in if getReturnType this' = RT_OTHER then (this', cout @ lastStatusMessage this')
         else (this', cout))"

subsection \<open>readNodeset\<close>

text \<open>The text \<^verbatim>\<open>_("error reading data set (line %u)\n"), lineno\<close> of both error
  reports, and the report itself, which is made only while \<open>ok\<close> still holds.\<close>

definition data_set_error :: "uint32_t \<Rightarrow> string" where
  "data_set_error lineno =
     format_u (gettext ''error reading data set (line %u)\<newline>'') (unat lineno)"

definition report_line_error :: "bool \<Rightarrow> uint32_t \<Rightarrow> CliCommand \<Rightarrow> CliCommand" where
  "report_line_error ok lineno this =
     (if ok then cliError (data_set_error lineno) this else this)"

text \<open>
  The loop of \<^verbatim>\<open>CliCommand::readNodeset\<close> has no exit but the \<^verbatim>\<open>return ok\<close> on an
  empty record, so it is a partial function: \<open>None\<close> means that the loop does not
  return.  A result is the returned flag, the stream, the caller's data set and the
  command.
\<close>

partial_function (option) readNodeset_loop ::
  "FILE \<Rightarrow> uint32_t list list \<Rightarrow> uint32_t \<Rightarrow> CliCommand \<Rightarrow> bool \<Rightarrow> uint32_t \<Rightarrow>
     (bool \<times> FILE \<times> uint32_t list list \<times> CliCommand) option" where
  "readNodeset_loop inFile dataset expectedSize this ok lineno =
     (case readNodeIDRecord inFile [] of
        (good, inFile', record) \<Rightarrow>
          if \<not> good then
            readNodeset_loop inFile' dataset expectedSize
              (report_line_error ok lineno this) False (lineno + 1)
          else if length record = 0 then Some (ok, inFile', dataset, this)
          else if length record \<noteq> unat expectedSize then
            readNodeset_loop inFile' dataset expectedSize
              (report_line_error ok lineno this) False (lineno + 1)
          else
            readNodeset_loop inFile' (if ok then dataset @ [record] else dataset) expectedSize
              this ok (lineno + 1))"

declare readNodeset_loop.simps [code]

definition readNodeset ::
  "CliCommand \<Rightarrow> FILE \<Rightarrow> uint32_t list list \<Rightarrow> uint32_t \<Rightarrow>
     (bool \<times> FILE \<times> uint32_t list list \<times> CliCommand) option" where
  "readNodeset this inFile dataset expectedSize =
     readNodeset_loop inFile dataset expectedSize (cliSuccess [newline] this) True 1"

section \<open>class Cli: the command registry\<close>

record Cli =
  doQuit :: bool
  commands :: "CliCommand list"

text \<open>
  The scan of \<^verbatim>\<open>Cli::findCommand\<close>.  Its index is an \<^verbatim>\<open>unsigned\<close>, which wraps
  around; the result is \<open>Some None\<close> for the null pointer.
\<close>

partial_function (option) findCommand_loop ::
  "CliCommand list \<Rightarrow> string \<Rightarrow> 32 word \<Rightarrow> CliCommand option option" where
  "findCommand_loop cmds name i =
     (if unat i < length cmds then
        (if getName (cmds ! unat i) = name then Some (Some (cmds ! unat i))
         else findCommand_loop cmds name (i + 1))
      else Some None)"

declare findCommand_loop.simps [code]

definition findCommand :: "Cli \<Rightarrow> string \<Rightarrow> CliCommand option option" where
  "findCommand cli name = findCommand_loop (commands cli) name 0"

section \<open>Notions used to state the properties\<close>

text \<open>A stream that holds the single line \<open>l\<close> and its newline, and what the node-ID
  record reader makes of that line: its result and the record.\<close>

definition line_file :: "string \<Rightarrow> FILE" where
  "line_file l = \<lparr>unread = l @ [newline], device_fails = False, eof_indicator = False\<rparr>"

definition line_record :: "string \<Rightarrow> bool \<times> uint32_t list" where
  "line_record l =
     (case readNodeIDRecord (line_file l) [] of (good, f', record) \<Rightarrow> (good, record))"

text \<open>A line is malformed for a data set of the given width when the record reader
  fails on it, or reads a record that is not empty and has another width.\<close>

definition malformed_line :: "uint32_t \<Rightarrow> string \<Rightarrow> bool" where
  "malformed_line expectedSize l =
     (case line_record l of
        (good, record) \<Rightarrow> \<not> good \<or> (record \<noteq> [] \<and> length record \<noteq> unat expectedSize))"

text \<open>The text of a sequence of lines, each followed by its newline.\<close>

definition block_text :: "string list \<Rightarrow> string" where
  "block_text ls = concat (map (\<lambda>l. l @ [newline]) ls)"

text \<open>A status message of the kind ERROR begins with \<^verbatim>\<open>ERROR_STR\<close>.\<close>

definition isError :: "string \<Rightarrow> bool" where
  "isError msg = (take (length ERROR_STR) msg = ERROR_STR)"

text \<open>The space, tab and comma of the default delimiters.\<close>

definition separators :: "char set" where
  "separators = {CHR 0x20, CHR 0x09, CHR '',''}"

text \<open>The value of a string of decimal digits, read in base 10.\<close>

definition decimal_value :: "string \<Rightarrow> nat" where
  "decimal_value s = foldl (\<lambda>a c. a * 10 + (of_char c - 48)) 0 s"

text \<open>Sample objects for the concrete runs below.\<close>

definition sample_command :: CliCommand where
  "sample_command =
     \<lparr>getName = ''add-arcs'', getSynopsis = ''add-arcs {:|<}'', getHelpText = ''add arcs'',
      getReturnType = RT_OTHER, lastStatusMessage = [], statusHistory = []\<rparr>"

definition sample_file :: "string \<Rightarrow> FILE" where
  "sample_file s = \<lparr>unread = s, device_fails = False, eof_indicator = False\<rparr>"

section \<open>Lemmas about the stream and the record reader\<close>

lemma upto_newline_Nil_iff [simp]: "upto_newline s = [] \<longleftrightarrow> s = []"
  by (cases s) simp_all

lemma length_upto_newline_le: "length (upto_newline s) \<le> length s"
  by (induction s) simp_all

lemma upto_newline_line:
  "newline \<notin> set l \<Longrightarrow> upto_newline (l @ newline # rest) = l @ [newline]"
  by (induction l) auto

lemma upto_newline_no_newline:
  "newline \<notin> set l \<Longrightarrow> upto_newline l = l"
  by (induction l) auto

lemma fgets_eof_set:
  "eof_indicator f \<Longrightarrow> fgets n f = (None, f)"
  by (simp add: fgets_def)

lemma fgets_at_eof:
  "unread f = [] \<Longrightarrow> \<not> device_fails f \<Longrightarrow> fgets 1024 f = (None, f\<lparr>eof_indicator := True\<rparr>)"
  by (cases f) (simp add: fgets_def)

lemma fgets_at_failure:
  "unread f = [] \<Longrightarrow> device_fails f \<Longrightarrow> fgets 1024 f = (None, f)"
  by (cases f) (simp add: fgets_def)

lemma fgets_line:
  assumes "newline \<notin> set l" "length l \<le> 1022" "unread f = l @ newline # rest"
    and "\<not> eof_indicator f"
  shows "fgets 1024 f = (Some (l @ [newline]), f\<lparr>unread := rest\<rparr>)"
proof -
  have "take 1023 (l @ newline # rest) = l @ newline # take (1022 - length l) rest"
    using assms(2) by (simp add: take_Cons')
  then have "upto_newline (take (1024 - 1) (unread f)) = l @ [newline]"
    using assms(1,3) by (simp add: upto_newline_line)
  then show ?thesis
    using assms(3,4) by (simp add: fgets_def Let_def)
qed

lemma fgets_progress:
  assumes "fgets 1024 f = (r, f')"
  shows "device_fails f' = device_fails f"
    and "length (unread f') \<le> length (unread f)"
    and "unread f \<noteq> [] \<Longrightarrow> \<not> eof_indicator f \<Longrightarrow> length (unread f') < length (unread f)"
proof -
  let ?buf = "upto_newline (take (1024 - 1) (unread f))"
  have u: "unread f' = unread f \<or> unread f' = drop (length ?buf) (unread f)"
    and d: "device_fails f' = device_fails f"
    using assms by (auto simp: fgets_def Let_def split: if_splits)
  show "device_fails f' = device_fails f" by (rule d)
  show "length (unread f') \<le> length (unread f)" using u by auto
  assume ne: "unread f \<noteq> []" and "\<not> eof_indicator f"
  then have u': "unread f' = drop (length ?buf) (unread f)"
    using assms by (auto simp: fgets_def Let_def split: if_splits)
  from ne have "?buf \<noteq> []" by simp
  then have "0 < length ?buf" by simp
  with ne show "length (unread f') < length (unread f)"
    using u' by (simp del: upto_newline_Nil_iff)
qed

lemma line_fileD [simp]:
  "unread (line_file l) = l @ [newline]" "\<not> device_fails (line_file l)" "\<not> eof_indicator (line_file l)"
  by (simp_all add: line_file_def)

lemma readUintRecord_line:
  assumes "newline \<notin> set l" "length l \<le> 1022" "unread f = l @ newline # rest"
    and "\<not> eof_indicator f"
  shows "readUintRecord f ret =
    (case readUintRecord (line_file l) ret of (b, f', r) \<Rightarrow> (b, f\<lparr>unread := rest\<rparr>, r))"
proof -
  have a: "fgets 1024 f = (Some (l @ [newline]), f\<lparr>unread := rest\<rparr>)"
    using assms by (rule fgets_line)
  have b: "fgets 1024 (line_file l) = (Some (l @ [newline]), (line_file l)\<lparr>unread := []\<rparr>)"
    using assms(1,2) by (intro fgets_line) simp_all
  show ?thesis
    by (simp add: readUintRecord_def a b Let_def split: prod.splits)
qed

lemma readNodeIDRecord_line:
  assumes "newline \<notin> set l" "length l \<le> 1022" "unread f = l @ newline # rest"
    and "\<not> eof_indicator f"
  shows "readNodeIDRecord f ret =
    (case readNodeIDRecord (line_file l) ret of (b, f', r) \<Rightarrow> (b, f\<lparr>unread := rest\<rparr>, r))"
  by (simp add: readNodeIDRecord_def readUintRecord_line [OF assms] split: prod.splits)

lemma splitString_loop_Nil [simp]: "splitString_loop delim [] ret = ret"
  by simp

lemma readUintRecord_at_eof:
  "unread f = [] \<Longrightarrow> \<not> device_fails f \<Longrightarrow>
     readUintRecord f ret = (True, f\<lparr>eof_indicator := True\<rparr>, ret)"
  by (simp add: readUintRecord_def fgets_at_eof feof_def)

lemma readUintRecord_at_failure:
  "unread f = [] \<Longrightarrow> device_fails f \<Longrightarrow> \<not> eof_indicator f \<Longrightarrow>
     readUintRecord f ret = (False, f, ret)"
  by (simp add: readUintRecord_def fgets_at_failure feof_def)

lemma readUintRecord_eof_set:
  "eof_indicator f \<Longrightarrow> readUintRecord f ret = (True, f, ret)"
  by (simp add: readUintRecord_def fgets_eof_set feof_def)

lemma readUintRecord_blank:
  "unread f = newline # rest \<Longrightarrow> \<not> eof_indicator f \<Longrightarrow>
     readUintRecord f ret = (True, f\<lparr>unread := rest\<rparr>, ret)"
  using fgets_line [of "[]" f rest]
  by (simp add: readUintRecord_def chomp_def c_str_def NUL_def newline_def splitString_def)

lemma readUintRecord_progress:
  assumes "readUintRecord f ret = (b, f', ret')"
  shows "device_fails f' = device_fails f"
    and "length (unread f') \<le> length (unread f)"
    and "unread f \<noteq> [] \<Longrightarrow> \<not> eof_indicator f \<Longrightarrow> length (unread f') < length (unread f)"
proof -
  obtain r where "fgets 1024 f = (r, f')"
    using assms by (cases "fgets 1024 f") (auto simp: readUintRecord_def Let_def split: option.splits if_splits prod.splits)
  from fgets_progress [OF this]
  show "device_fails f' = device_fails f"
    and "length (unread f') \<le> length (unread f)"
    and "unread f \<noteq> [] \<Longrightarrow> \<not> eof_indicator f \<Longrightarrow> length (unread f') < length (unread f)"
    by simp_all
qed


lemma readNodeIDRecord_at_eof:
  "unread f = [] \<Longrightarrow> \<not> device_fails f \<Longrightarrow>
     readNodeIDRecord f [] = (True, f\<lparr>eof_indicator := True\<rparr>, [])"
  by (simp add: readNodeIDRecord_def readUintRecord_at_eof)

lemma readNodeIDRecord_at_failure:
  "unread f = [] \<Longrightarrow> device_fails f \<Longrightarrow> \<not> eof_indicator f \<Longrightarrow>
     readNodeIDRecord f ret = (False, f, ret)"
  by (simp add: readNodeIDRecord_def readUintRecord_at_failure)

lemma readNodeIDRecord_eof_set:
  "eof_indicator f \<Longrightarrow> readNodeIDRecord f [] = (True, f, [])"
  by (simp add: readNodeIDRecord_def readUintRecord_eof_set)

lemma readNodeIDRecord_blank:
  "unread f = newline # rest \<Longrightarrow> \<not> eof_indicator f \<Longrightarrow>
     readNodeIDRecord f [] = (True, f\<lparr>unread := rest\<rparr>, [])"
  by (simp add: readNodeIDRecord_def readUintRecord_blank)

lemma readNodeIDRecord_progress:
  assumes "readNodeIDRecord f ret = (b, f', ret')"
  shows "device_fails f' = device_fails f"
    and "length (unread f') \<le> length (unread f)"
    and "unread f \<noteq> [] \<Longrightarrow> \<not> eof_indicator f \<Longrightarrow> length (unread f') < length (unread f)"
proof -
  obtain b0 where "readUintRecord f ret = (b0, f', ret')"
    using assms by (cases "readUintRecord f ret") (auto simp: readNodeIDRecord_def split: if_splits)
  from readUintRecord_progress [OF this]
  show "device_fails f' = device_fails f"
    and "length (unread f') \<le> length (unread f)"
    and "unread f \<noteq> [] \<Longrightarrow> \<not> eof_indicator f \<Longrightarrow> length (unread f') < length (unread f)"
    by simp_all
qed

lemma readNodeIDRecord_nonzero:
  "readNodeIDRecord f ret = (True, f', ret') \<Longrightarrow> 0 \<notin> set ret'"
  by (cases "readUintRecord f ret") (auto simp: readNodeIDRecord_def list_ex_iff split: if_splits)

lemmas readNodeset_loop_induct =
  readNodeset_loop.raw_induct [rotated 1, consumes 1, case_names step]

text \<open>Termination on devices that report end-of-file.\<close>

lemma readNodeset_loop_not_None:
  "\<not> device_fails f \<Longrightarrow> readNodeset_loop f ds n this ok lineno \<noteq> None"
proof (induction "length (unread f)" arbitrary: f ds this ok lineno rule: less_induct)
  case less
  obtain good f' rec where step: "readNodeIDRecord f [] = (good, f', rec)"
    by (cases "readNodeIDRecord f []") auto
  consider (stale) "eof_indicator f" | (finished) "unread f = []"
    | (more) "unread f \<noteq> []" "\<not> eof_indicator f"
    by blast
  then show ?case
  proof cases
    case stale
    then have "readNodeIDRecord f [] = (True, f, [])"
      by (rule readNodeIDRecord_eof_set)
    then show ?thesis
      by (subst readNodeset_loop.simps) simp
  next
    case finished
    with less.prems have "readNodeIDRecord f [] = (True, f\<lparr>eof_indicator := True\<rparr>, [])"
      by (simp add: readNodeIDRecord_at_eof)
    then show ?thesis
      by (subst readNodeset_loop.simps) simp
  next
    case more
    from readNodeIDRecord_progress [OF step] more less.prems
    have lt: "length (unread f') < length (unread f)" and nf: "\<not> device_fails f'"
      by simp_all
    note IH = less.hyps [OF lt nf]
    show ?thesis
      by (subst readNodeset_loop.simps) (simp add: step IH del: not_None_eq)
  qed
qed

lemma readNodeset_loop_returns:
  "\<not> device_fails f \<Longrightarrow> \<exists>r. readNodeset_loop f ds n this ok lineno = Some r"
  using readNodeset_loop_not_None [of f ds n this ok lineno] by auto

text \<open>Divergence on a device whose reads fail.\<close>

lemma readNodeset_loop_diverges:
  assumes "unread f = []" "device_fails f" "\<not> eof_indicator f"
  shows "readNodeset_loop f ds n this ok lineno = None"
proof -
  have "\<not> (unread f = [] \<and> device_fails f \<and> \<not> eof_indicator f)"
    if "readNodeset_loop f ds n this ok lineno = Some y" for y
    using that
  proof (induction f ds n this ok lineno y rule: readNodeset_loop_induct)
    case (step loop inFile dataset expectedSize this ok lineno y)
    show ?case
    proof
      assume bad: "unread inFile = [] \<and> device_fails inFile \<and> \<not> eof_indicator inFile"
      then have "readNodeIDRecord inFile [] = (False, inFile, [])"
        by (simp add: readNodeIDRecord_at_failure)
      with step(2) have "loop inFile dataset expectedSize (report_line_error ok lineno this) False (lineno + 1) = Some y"
        by simp
      from step(1) [OF this] bad show False by simp
    qed
  qed
  with assms show ?thesis
    by (cases "readNodeset_loop f ds n this ok lineno") auto
qed


lemma readNodeset_loop_records:
  assumes "readNodeset_loop f ds n this ok lineno = Some y"
  shows "\<exists>new. fst (snd (snd y)) = ds @ new \<and> (\<forall>r\<in>set new. length r = unat n \<and> 0 \<notin> set r)"
  using assms
proof (induction f ds n this ok lineno y rule: readNodeset_loop_induct)
  case (step loop inFile dataset expectedSize this ok lineno y)
  obtain good f' rec where r: "readNodeIDRecord inFile [] = (good, f', rec)"
    by (cases "readNodeIDRecord inFile []") auto
  consider (fail) "\<not> good" | (finish) "good" "rec = []"
    | (width) "good" "rec \<noteq> []" "length rec \<noteq> unat expectedSize"
    | (push) "good" "rec \<noteq> []" "length rec = unat expectedSize"
    by blast
  then show ?case
  proof cases
    case fail
    with step(2) r
    have "loop f' dataset expectedSize (report_line_error ok lineno this) False (lineno + 1) = Some y"
      by simp
    from step(1) [OF this] show ?thesis .
  next
    case finish
    with step(2) r have "y = (ok, f', dataset, this)"
      by simp
    then show ?thesis by simp
  next
    case width
    with step(2) r
    have "loop f' dataset expectedSize (report_line_error ok lineno this) False (lineno + 1) = Some y"
      by simp
    from step(1) [OF this] show ?thesis .
  next
    case push
    with step(2) r
    have "loop f' (if ok then dataset @ [rec] else dataset) expectedSize this ok (lineno + 1) = Some y"
      by simp
    from step(1) [OF this] obtain new
      where new: "fst (snd (snd y)) = (if ok then dataset @ [rec] else dataset) @ new"
        "\<forall>r\<in>set new. length r = unat expectedSize \<and> 0 \<notin> set r"
      by blast
    from r push have z: "0 \<notin> set rec"
      using readNodeIDRecord_nonzero [of inFile "[]" f' rec] by simp
    show ?thesis
    proof (cases ok)
      case True
      with new push z
      have "fst (snd (snd y)) = dataset @ (rec # new) \<and>
          (\<forall>r\<in>set (rec # new). length r = unat expectedSize \<and> 0 \<notin> set r)"
        by simp
      then show ?thesis by blast
    next
      case False
      with new show ?thesis by auto
    qed
  qed
qed

lemma push_tokens_eq:
  "push_tokens ss ret = (list_all isValidUint ss, ret @ map parseUint (takeWhile isValidUint ss))"
  by (induction ss arbitrary: ret) simp_all

lemma NUL_neq_newline [simp]: "NUL \<noteq> newline" "newline \<noteq> NUL"
  by (simp_all add: NUL_def newline_def)

lemma c_str_subset: "set (c_str l) \<subseteq> set l"
  by (auto simp: c_str_def dest: set_takeWhileD)

lemma chomp_line:
  assumes "newline \<notin> set l"
  shows "chomp (l @ [newline]) = c_str l"
proof (cases "NUL \<in> set l")
  case True
  then have eq: "c_str (l @ [newline]) = c_str l"
    by (simp add: c_str_def takeWhile_append1 [of NUL])
  have "last (c_str l) \<noteq> newline" if "c_str l \<noteq> []"
  proof -
    from that have "last (c_str l) \<in> set (c_str l)"
      by (rule last_in_set)
    then have "last (c_str l) \<in> set l"
      using c_str_subset [of l] by (rule rev_subsetD)
    with assms show ?thesis by auto
  qed
  with eq show ?thesis by (auto simp: chomp_def)
next
  case False
  then have "c_str (l @ [newline]) = l @ [newline]" "c_str l = l"
    by (auto simp: c_str_def)
  then show ?thesis by (simp add: chomp_def)
qed

lemma readUintRecord_line_file:
  assumes "newline \<notin> set l" "length l \<le> 1022"
  shows "readUintRecord (line_file l) ret =
    (if c_str l \<noteq> [] \<and> splitString (c_str l) = [] then (False, (line_file l)\<lparr>unread := []\<rparr>, ret)
     else (list_all isValidUint (splitString (c_str l)), (line_file l)\<lparr>unread := []\<rparr>,
           ret @ map parseUint (takeWhile isValidUint (splitString (c_str l)))))"
proof -
  have b: "fgets 1024 (line_file l) = (Some (l @ [newline]), (line_file l)\<lparr>unread := []\<rparr>)"
    using assms by (intro fgets_line) simp_all
  show ?thesis
    unfolding readUintRecord_def b
    by (simp add: chomp_line [OF assms(1)] push_tokens_eq Let_def)
qed

lemma line_record_not_terminator:
  assumes "newline \<notin> set l" "length l \<le> 1022" "c_str l \<noteq> []"
  shows "\<not> (fst (line_record l) \<and> snd (line_record l) = [])"
proof (cases "splitString (c_str l) = []")
  case True
  with assms show ?thesis
    by (simp add: line_record_def readNodeIDRecord_def readUintRecord_line_file)
next
  case False
  then have "list_all isValidUint (splitString (c_str l)) \<Longrightarrow>
      takeWhile isValidUint (splitString (c_str l)) \<noteq> []"
    by (cases "splitString (c_str l)") auto
  with False assms show ?thesis
    by (auto simp: line_record_def readNodeIDRecord_def readUintRecord_line_file)
qed


text \<open>A block of lines that fit the line buffer: the loop reads them one by one.\<close>

lemma line_record_step:
  assumes "newline \<notin> set l" "length l \<le> 1022" "unread f = l @ newline # rest"
    and "\<not> eof_indicator f"
  shows "readNodeIDRecord f [] = (fst (line_record l), f\<lparr>unread := rest\<rparr>, snd (line_record l))"
  by (simp add: readNodeIDRecord_line [OF assms] line_record_def split: prod.splits)

lemma readNodeset_loop_lines:
  assumes "\<forall>l\<in>set ls. newline \<notin> set l \<and> length l \<le> 1022 \<and> c_str l \<noteq> []"
    and "unread f = block_text ls @ rest"
    and "\<not> eof_indicator f"
  shows "readNodeset_loop f ds n this ok lineno =
    readNodeset_loop (f\<lparr>unread := rest\<rparr>)
      (if ok then ds @ map (\<lambda>l. snd (line_record l)) (takeWhile (\<lambda>l. \<not> malformed_line n l) ls) else ds)
      n
      (if list_ex (malformed_line n) ls
       then report_line_error ok (lineno + of_nat (length (takeWhile (\<lambda>l. \<not> malformed_line n l) ls))) this
       else this)
      (ok \<and> \<not> list_ex (malformed_line n) ls)
      (lineno + of_nat (length ls))"
  using assms
proof (induction ls arbitrary: f ds this ok lineno)
  case Nil
  then have "f\<lparr>unread := rest\<rparr> = f"
    by (cases f) (simp add: block_text_def)
  then show ?case by simp
next
  case (Cons l ls)
  let ?f' = "f\<lparr>unread := block_text ls @ rest\<rparr>"
  from Cons.prems have l: "newline \<notin> set l" "length l \<le> 1022" "c_str l \<noteq> []"
    and ls: "\<forall>l\<in>set ls. newline \<notin> set l \<and> length l \<le> 1022 \<and> c_str l \<noteq> []"
    and f: "unread f = l @ newline # (block_text ls @ rest)"
    and ne: "\<not> eof_indicator f"
    by (simp_all add: block_text_def)
  have step: "readNodeIDRecord f [] = (fst (line_record l), ?f', snd (line_record l))"
    using l(1,2) f ne by (rule line_record_step)
  have nt: "\<not> (fst (line_record l) \<and> snd (line_record l) = [])"
    using l by (rule line_record_not_terminator)
  have f': "unread ?f' = block_text ls @ rest" "?f'\<lparr>unread := rest\<rparr> = f\<lparr>unread := rest\<rparr>"
    and ne': "\<not> eof_indicator ?f'"
    using ne by simp_all
  show ?case
  proof (cases "malformed_line n l")
    case True
    then have "readNodeset_loop f ds n this ok lineno =
        readNodeset_loop ?f' ds n (report_line_error ok lineno this) False (lineno + 1)"
      using nt by (subst readNodeset_loop.simps) (auto simp: step malformed_line_def split: prod.splits)
    also have "\<dots> = readNodeset_loop (f\<lparr>unread := rest\<rparr>) ds n (report_line_error ok lineno this) False
        (lineno + 1 + of_nat (length ls))"
      using Cons.IH [OF ls f'(1) ne', of ds "report_line_error ok lineno this" False "lineno + 1"]
      by (simp add: f'(2) report_line_error_def)
    finally show ?thesis
      using True by (simp add: ac_simps)
  next
    case False
    then have good: "fst (line_record l)" "snd (line_record l) \<noteq> []"
      "length (snd (line_record l)) = unat n"
      using nt by (auto simp: malformed_line_def split: prod.splits)
    then have "readNodeset_loop f ds n this ok lineno =
        readNodeset_loop ?f' (if ok then ds @ [snd (line_record l)] else ds) n this ok (lineno + 1)"
      by (subst readNodeset_loop.simps) (simp add: step)
    also note Cons.IH [OF ls f'(1) ne', of "if ok then ds @ [snd (line_record l)] else ds" this ok "lineno + 1"]
    finally show ?thesis
      using False by (simp add: f'(2) ac_simps)
  qed
qed


text \<open>Status messages.\<close>

lemma isError_message_buffer [simp]:
  "isError (message_buffer ERROR_STR x)"
  "\<not> isError (message_buffer SUCCESS_STR x)"
  by (simp_all add: isError_def message_buffer_def ERROR_STR_def SUCCESS_STR_def c_str_def NUL_def)

lemma cliMessage_fields [simp]:
  "lastStatusMessage (cliMessage str x this) = message_buffer str x"
  "statusHistory (cliMessage str x this) = statusHistory this @ [message_buffer str x]"
  "getName (cliMessage str x this) = getName this"
  "getSynopsis (cliMessage str x this) = getSynopsis this"
  "getHelpText (cliMessage str x this) = getHelpText this"
  "getReturnType (cliMessage str x this) = getReturnType this"
  by (simp_all add: cliMessage_def Let_def)

text \<open>Lines of separators.\<close>

lemma splitString_separators:
  assumes "set s \<subseteq> separators"
  shows "splitString s = []"
proof -
  have "\<forall>c\<in>set s. c \<in> set default_delim"
    using assms by (auto simp: separators_def default_delim_def)
  then have "dropWhile (\<lambda>c. c \<in> set default_delim) s = []"
    by (simp add: dropWhile_eq_Nil_conv)
  then show ?thesis
    by (simp add: splitString_def)
qed

lemma separators_c_str:
  assumes "set s \<subseteq> separators"
  shows "c_str s = s" "newline \<notin> set s"
proof -
  from assms have "\<forall>c\<in>set s. c \<noteq> NUL"
    by (auto simp: separators_def NUL_def)
  then show "c_str s = s"
    by (simp add: c_str_def)
  from assms show "newline \<notin> set s"
    by (auto simp: separators_def newline_def)
qed

lemma last_not_newline:
  "l \<noteq> [] \<Longrightarrow> newline \<notin> set l \<Longrightarrow> last l \<noteq> newline"
  by (metis last_in_set)

lemma readUintRecord_separator_buffer:
  assumes "fgets 1024 f = (Some buf, f')" "buf = l \<or> buf = l @ [newline]"
    "l \<noteq> []" "set l \<subseteq> separators"
  shows "readUintRecord f ret = (False, f', ret)"
proof -
  note sep = separators_c_str [OF assms(4)]
  from assms(3) sep(2) have "last l \<noteq> newline"
    by (rule last_not_newline)
  with assms(2) sep chomp_line [OF sep(2)] assms(3)
  have "chomp buf = l"
    by (auto simp: chomp_def)
  then show ?thesis
    using assms(3) by (simp add: readUintRecord_def assms(1) Let_def splitString_separators [OF assms(4)])
qed

lemma fgets_separators:
  assumes "l \<noteq> []" "set l \<subseteq> separators" "unread f = l @ rest" "rest = [] \<or> hd rest = newline"
    and "\<not> eof_indicator f"
  shows "(\<exists>f'. fgets 1024 f = (None, f') \<and> eof_indicator f' = eof_indicator f) \<or>
    (\<exists>buf f' l'. fgets 1024 f = (Some buf, f') \<and> (buf = l' \<or> buf = l' @ [newline]) \<and>
       l' \<noteq> [] \<and> set l' \<subseteq> separators)"
proof -
  note sep = separators_c_str [OF assms(2)]
  consider (long) "1023 \<le> length l" | (line) r where "length l < 1023" "rest = newline # r"
    | (last) "length l < 1023" "rest = []"
    using assms(4) by (cases rest; cases "length l < 1023") auto
  then show ?thesis
  proof cases
    case long
    have "newline \<notin> set (take 1023 l)"
      using sep(2) by (auto dest: in_set_takeD)
    then have "upto_newline (take 1023 l) = take 1023 l"
      by (rule upto_newline_no_newline)
    with long have "fgets 1024 f = (Some (take 1023 l), f\<lparr>unread := drop 1023 (unread f)\<rparr>)"
      by (simp add: fgets_def assms(3,5) Let_def)
    moreover have "take 1023 l \<noteq> []" "set (take 1023 l) \<subseteq> separators"
      using assms(1,2) by (auto dest: in_set_takeD)
    ultimately show ?thesis by blast
  next
    case line
    then have "fgets 1024 f = (Some (l @ [newline]), f\<lparr>unread := r\<rparr>)"
      using sep(2) assms(3,5) by (intro fgets_line) simp_all
    with assms(1,2) show ?thesis by blast
  next
    case last
    have up: "upto_newline l = l"
      using sep(2) by (rule upto_newline_no_newline)
    from assms(1) sep(2) have nl: "last l \<noteq> newline"
      by (rule last_not_newline)
    show ?thesis
    proof (cases "device_fails f")
      case True
      with last up nl assms(1) have "fgets 1024 f = (None, f\<lparr>unread := []\<rparr>)"
        by (simp add: fgets_def assms(3,5) Let_def)
      then show ?thesis by simp
    next
      case False
      with last up nl assms(1)
      have "fgets 1024 f = (Some l, f\<lparr>unread := [], eof_indicator := True\<rparr>)"
        by (simp add: fgets_def assms(3,5) Let_def)
      with assms(1,2) show ?thesis by blast
    qed
  qed
qed

text \<open>The registry scan.\<close>

lemma findCommand_loop_drop:
  assumes "length cmds < 2 ^ 32" "i \<le> length cmds"
  shows "findCommand_loop cmds name (of_nat i) = Some (find (\<lambda>c. getName c = name) (drop i cmds))"
  using assms(2)
proof (induction "length cmds - i" arbitrary: i)
  case 0
  then have "i = length cmds" by simp
  moreover from this assms(1) have "unat (of_nat i :: 32 word) = i"
    by (simp add: unat_of_nat)
  ultimately show ?case
    by (subst findCommand_loop.simps) simp
next
  case (Suc d)
  then have lt: "i < length cmds" by simp
  with assms(1) have u: "unat (of_nat i :: 32 word) = i"
    by (simp add: unat_of_nat)
  have d: "drop i cmds = cmds ! i # drop (Suc i) cmds"
    using lt by (simp add: Cons_nth_drop_Suc)
  from Suc(2) lt have "d = length cmds - Suc i" "Suc i \<le> length cmds"
    by simp_all
  from Suc(1) [OF this]
  have IH: "findCommand_loop cmds name (of_nat i + 1) =
      Some (find (\<lambda>c. getName c = name) (drop (Suc i) cmds))"
    by (simp add: ac_simps)
  show ?case
    by (subst findCommand_loop.simps) (simp add: u lt d IH)
qed

lemma findCommand_find:
  assumes "length (commands cli) < 2 ^ 32"
  shows "findCommand cli name = Some (find (\<lambda>c. getName c = name) (commands cli))"
  using findCommand_loop_drop [OF assms, of 0 name] by (simp add: findCommand_def)


text \<open>A block without a malformed line.\<close>

lemma readNodeset_well_formed_block:
  assumes "\<forall>l\<in>set ls. newline \<notin> set l \<and> length l \<le> 1022 \<and> c_str l \<noteq> [] \<and> \<not> malformed_line n l"
    and "unread f = block_text ls @ newline # rest"
    and "\<not> eof_indicator f"
  shows "readNodeset this f ds n =
    Some (True, f\<lparr>unread := rest\<rparr>, ds @ map (\<lambda>l. snd (line_record l)) ls, cliSuccess [newline] this)"
proof -
  from assms(1) have good: "\<not> list_ex (malformed_line n) ls"
    "takeWhile (\<lambda>l. \<not> malformed_line n l) ls = ls"
    by (simp_all add: list_ex_iff)
  from assms(1) have lines: "\<forall>l\<in>set ls. newline \<notin> set l \<and> length l \<le> 1022 \<and> c_str l \<noteq> []"
    by simp
  have "readNodeset this f ds n =
      readNodeset_loop (f\<lparr>unread := newline # rest\<rparr>) (ds @ map (\<lambda>l. snd (line_record l)) ls) n
        (cliSuccess [newline] this) True (1 + of_nat (length ls))"
    unfolding readNodeset_def
    using readNodeset_loop_lines [OF lines assms(2,3), of ds n "cliSuccess [newline] this" True 1] good
    by simp
  also have "\<dots> = Some (True, f\<lparr>unread := rest\<rparr>, ds @ map (\<lambda>l. snd (line_record l)) ls,
      cliSuccess [newline] this)"
    using readNodeIDRecord_blank [of "f\<lparr>unread := newline # rest\<rparr>" rest] assms(3)
    by (subst readNodeset_loop.simps) simp
  finally show ?thesis .
qed

lemma readNodeset_returns:
  "\<not> device_fails f \<Longrightarrow> \<exists>r. readNodeset this f ds n = Some r"
  unfolding readNodeset_def by (rule readNodeset_loop_returns)


text \<open>However the stream goes on, a call reports at most one error: none when it
  returns \<open>true\<close>, one when it returns \<open>false\<close>.\<close>

lemma readNodeset_loop_status:
  assumes "readNodeset_loop f ds n this ok lineno = Some y"
  shows "if fst y then ok \<and> snd (snd (snd y)) = this
    else if ok then \<exists>k. snd (snd (snd y)) = cliError (data_set_error k) this
    else snd (snd (snd y)) = this"
  using assms
proof (induction f ds n this ok lineno y rule: readNodeset_loop_induct)
  case (step loop inFile dataset expectedSize this ok lineno y)
  obtain good f' rec where r: "readNodeIDRecord inFile [] = (good, f', rec)"
    by (cases "readNodeIDRecord inFile []") auto
  consider (bad) "\<not> good \<or> (rec \<noteq> [] \<and> length rec \<noteq> unat expectedSize)"
    | (finish) "good" "rec = []"
    | (push) "good" "rec \<noteq> []" "length rec = unat expectedSize"
    by blast
  then show ?case
  proof cases
    case bad
    with step(2) r
    have "loop f' dataset expectedSize (report_line_error ok lineno this) False (lineno + 1) = Some y"
      by (auto split: if_splits)
    from step(1) [OF this] show ?thesis
      by (auto simp: report_line_error_def split: if_splits)
  next
    case finish
    with step(2) r have "y = (ok, f', dataset, this)"
      by simp
    then show ?thesis by simp
  next
    case push
    with step(2) r
    have "loop f' (if ok then dataset @ [rec] else dataset) expectedSize this ok (lineno + 1) = Some y"
      by simp
    from step(1) [OF this] show ?thesis .
  qed
qed

lemma readNodeset_reports_once:
  assumes "readNodeset this f ds n = Some (ok', f', ds', this')"
  shows "length (filter isError (drop (length (statusHistory this)) (statusHistory this'))) =
    (if ok' then 0 else 1)"
  using readNodeset_loop_status [of f ds n "cliSuccess [newline] this" True 1 "(ok', f', ds', this')"] assms
  by (auto simp: readNodeset_def cliSuccess_def cliError_def split: if_splits)

text \<open>Where the conversion agrees with base 10: on tokens that do not begin with a zero
  and whose value fits 32 bits.\<close>

lemma isdigit_digit_value:
  "isdigit c \<Longrightarrow> digit_value c = Some (of_char c - 48) \<and> (of_char c :: nat) - 48 < 10"
  by (auto simp: isdigit_def digit_value_def)

lemma isdigit_not_isspace: "isdigit c \<Longrightarrow> \<not> isspace c \<and> c \<noteq> CHR ''-'' \<and> c \<noteq> CHR ''+'' \<and> c \<noteq> NUL"
  by (auto simp: isdigit_def isspace_def NUL_def)

lemma digits_value_decimal:
  "list_all isdigit s \<Longrightarrow> digits_value 10 acc s = foldl (\<lambda>a c. a * 10 + (of_char c - 48)) acc s"
  by (induction s arbitrary: acc) (simp_all add: isdigit_digit_value)

lemma strtoul_decimal:
  assumes "isValidUint s" "hd s \<noteq> CHR ''0''"
  shows "strtoul (c_str s) 0 = min (decimal_value s) ULONG_MAX"
proof -
  from assms(1) obtain c cs where s: "s = c # cs" and d: "isdigit c" "list_all isdigit cs"
    by (cases s) (auto simp: isValidUint_def)
  have "\<forall>x\<in>set s. x \<noteq> NUL"
    using s d isdigit_not_isspace by (auto simp: list_all_iff)
  then have c: "c_str s = c # cs"
    by (simp add: c_str_def s)
  have w: "dropWhile isspace (c # cs) = c # cs"
    using isdigit_not_isspace [OF d(1)] by simp
  have sign: "c \<noteq> CHR ''-''" "c \<noteq> CHR ''+''" "c \<noteq> CHR ''0''"
    using isdigit_not_isspace [OF d(1)] assms(2) s by simp_all
  have h: "\<not> has_hex_prefix (c # cs)"
    using sign(3) by (cases cs; cases "tl cs") simp_all
  have "list_all isdigit (c # cs)"
    using d by simp
  then have v: "digits_value 10 0 (c # cs) = decimal_value s"
    unfolding decimal_value_def s by (rule digits_value_decimal)
  show ?thesis
    unfolding strtoul_def c w Let_def
    using sign h v by (simp add: min_def del: digits_value.simps)
qed

lemma parseUint_decimal:
  assumes "isValidUint s" "hd s \<noteq> CHR ''0''" "decimal_value s < 2 ^ 32"
  shows "unat (parseUint s) = decimal_value s"
proof -
  from assms(3) have "decimal_value s \<le> ULONG_MAX"
    by (simp add: ULONG_MAX_def)
  with strtoul_decimal [OF assms(1,2)] have "strtoul (c_str s) 0 = decimal_value s"
    by simp
  with assms(3) show ?thesis
    by (simp add: parseUint_def unat_of_nat)
qed


text \<open>A line that does not fit the line buffer is read in pieces.\<close>

lemma splitString_word:
  assumes "s \<noteq> []" "\<forall>c\<in>set s. c \<notin> set default_delim"
  shows "splitString s = [s]"
proof -
  from assms obtain c cs where s: "s = c # cs" "c \<notin> set default_delim"
    by (cases s) auto
  have a: "dropWhile (\<lambda>c. c \<in> set default_delim) s = s"
    using s by simp
  have b: "takeWhile (\<lambda>c. c \<notin> set default_delim) s = s"
    "dropWhile (\<lambda>c. c \<notin> set default_delim) s = []"
    using assms(2) by simp_all
  show ?thesis
    unfolding splitString_def
    by (subst splitString_loop.simps) (simp add: a b assms(1))
qed

lemma fgets_full_buffer:
  assumes "length b = 1023" "newline \<notin> set b" "unread f = b @ rest" "\<not> eof_indicator f"
  shows "fgets 1024 f = (Some b, f\<lparr>unread := rest\<rparr>)"
proof -
  have "upto_newline (take (1024 - 1) (unread f)) = b"
    using assms by (simp add: upto_newline_no_newline)
  then show ?thesis
    using assms(1,3,4) by (simp add: fgets_def Let_def)
qed

lemma readUintRecord_long_word:
  assumes "length b = 1023" "\<forall>c\<in>set b. c \<notin> set default_delim \<and> c \<noteq> NUL \<and> \<not> isdigit c"
    and "unread f = b @ rest" "\<not> eof_indicator f"
  shows "readUintRecord f ret = (False, f\<lparr>unread := rest\<rparr>, ret)"
proof -
  from assms(1) have ne: "b \<noteq> []" by auto
  have nl: "newline \<notin> set b"
    using assms(2) by (auto simp: default_delim_def newline_def)
  have g: "fgets 1024 f = (Some b, f\<lparr>unread := rest\<rparr>)"
    using assms(1) nl assms(3,4) by (rule fgets_full_buffer)
  have c: "c_str b = b"
    using assms(2) by (simp add: c_str_def)
  have "last b \<noteq> newline"
    using ne nl by (rule last_not_newline)
  with c have ch: "chomp b = b"
    by (simp add: chomp_def)
  have sp: "splitString b = [b]"
    using ne assms(2) by (intro splitString_word) auto
  have "\<not> isValidUint b"
    using ne assms(2) by (cases b) (auto simp: isValidUint_def)
  then show ?thesis
    by (simp add: readUintRecord_def g ch sp ne)
qed


lemma readUintRecord_long_separators:
  assumes "length b = 1023" "set b \<subseteq> separators" "unread f = b @ rest" "\<not> eof_indicator f"
  shows "readUintRecord f ret = (False, f\<lparr>unread := rest\<rparr>, ret)"
proof -
  from assms(1) have ne: "b \<noteq> []" by auto
  have "newline \<notin> set b"
    using separators_c_str [OF assms(2)] by simp
  with assms(1) have "fgets 1024 f = (Some b, f\<lparr>unread := rest\<rparr>)"
    using assms(3,4) by (rule fgets_full_buffer)
  then show ?thesis
    by (rule readUintRecord_separator_buffer [where l = b]) (simp_all add: ne assms(2))
qed

text \<open>A line of separators that fits the line buffer: the read fails and leaves the
  stream behind the line.\<close>

lemma readUintRecord_short_separators:
  assumes "l \<noteq> []" "set l \<subseteq> separators" "length l \<le> 1022"
    and "unread f = l @ newline # rest" "\<not> eof_indicator f"
  shows "readUintRecord f ret = (False, f\<lparr>unread := rest\<rparr>, ret)"
proof -
  have "newline \<notin> set l"
    using separators_c_str [OF assms(2)] by simp
  then have "fgets 1024 f = (Some (l @ [newline]), f\<lparr>unread := rest\<rparr>)"
    using assms(3,4,5) by (rule fgets_line)
  then show ?thesis
    by (rule readUintRecord_separator_buffer [where l = l]) (simp_all add: assms(1,2))
qed

section \<open>The properties\<close>

lemmas eval_defs =
  readNodeIDRecord_def readUintRecord_def fgets_def feof_def newline_def
  chomp_def c_str_def NUL_def splitString_def default_delim_def isValidUint_def isdigit_def parseUint_def
  strtoul_def isspace_def digit_value_def ULONG_MAX_def

text \<open>Concrete runs.\<close>

lemma sample_block_run:
  "readNodeset this (sample_file ''1 2\<newline>3 4\<newline>\<newline>'') [] 2 =
     Some (True, sample_file [], [[1, 2], [3, 4]], cliSuccess [newline] this)"
  by (simp add: readNodeset_def sample_file_def readNodeset_loop.simps eval_defs)

text \<open>The lines \<^verbatim>\<open>1 2 3\<close> and an empty line, with expected width 2: the result is
  \<open>false\<close>, both lines are consumed, and one error status follows the initial success
  status.\<close>

lemma sample_wide_line_run:
  "readNodeset sample_command (sample_file ''1 2 3\<newline>\<newline>'') [] 2 =
     Some (False, sample_file [], [],
       sample_command\<lparr>lastStatusMessage := ''ERROR! error reading data set (line 1)\<newline>'',
         statusHistory := [''OK. \<newline>'', ''ERROR! error reading data set (line 1)\<newline>'']\<rparr>)"
  by (simp add: readNodeset_def sample_file_def sample_command_def readNodeset_loop.simps eval_defs
      report_line_error_def cliError_def cliSuccess_def cliMessage_def message_buffer_def
      data_set_error_def gettext_def SUCCESS_STR_def ERROR_STR_def Let_def)

subsection \<open>C1: termination of a data-set read\<close>

text \<open>
  C1 says that a data-set read returns on every input stream, also when reads fail
  persistently without end-of-file.  The code does not: \<^verbatim>\<open>readUintRecord\<close> answers a
  failed \<^verbatim>\<open>fgets\<close> that is not at end-of-file with \<^verbatim>\<open>false\<close>, and \<^verbatim>\<open>readNodeset\<close> treats
  that like a malformed line and reads on.  On a stream whose data is used up and whose
  every further read fails, \<^verbatim>\<open>readNodeset\<close> never returns.
\<close>

theorem readNodeset_read_failure_never_returns:
  assumes "unread f = []" "device_fails f" "\<not> eof_indicator f"
  shows "readNodeset this f ds n = None"
  unfolding readNodeset_def using assms by (rule readNodeset_loop_diverges)

text \<open>A concrete stream of that kind.\<close>

theorem readNodeset_read_failure_never_returns_witness:
  "readNodeset sample_command \<lparr>unread = [], device_fails = True, eof_indicator = False\<rparr> [] 2 = None"
  by (rule readNodeset_read_failure_never_returns) simp_all

subsection \<open>C2: one error status for a block with malformed lines\<close>

text \<open>
  C2 says that \<^verbatim>\<open>readNodeset\<close>, on a block with a malformed line, returns \<open>false\<close>,
  records exactly one ERROR status and still consumes every remaining line of the block
  up to its terminator.  The code does not consume the block when a line does not fit
  the line buffer of 1024 characters: \<^verbatim>\<open>fgets\<close> delivers such a line in pieces, and
  \<^verbatim>\<open>readUintRecord\<close> reads each piece as a line of its own.  Here the first line has
  1023 characters.  The first read takes them and fails on them; the second read takes
  the newline that is left of the line, which is an empty record and ends the block.
  \<^verbatim>\<open>readNodeset\<close> returns \<open>false\<close> with one ERROR status, but the line \<^verbatim>\<open>5 6\<close> and the
  blank line behind it are still unread.
\<close>

theorem readNodeset_long_line_ends_block:
  "readNodeset sample_command
      (sample_file (replicate 1023 (CHR ''x'') @ ''\<newline>5 6\<newline>\<newline>'')) [] 2 =
     Some (False, sample_file ''5 6\<newline>\<newline>'', [],
       sample_command\<lparr>lastStatusMessage := ''ERROR! error reading data set (line 1)\<newline>'',
         statusHistory := [''OK. \<newline>'', ''ERROR! error reading data set (line 1)\<newline>'']\<rparr>) \<and>
   malformed_line 2 (replicate 1023 (CHR ''x''))"
proof -
  let ?f = "sample_file (replicate 1023 (CHR ''x'') @ ''\<newline>5 6\<newline>\<newline>'')"
  have "readUintRecord ?f [] = (False, ?f\<lparr>unread := ''\<newline>5 6\<newline>\<newline>''\<rparr>, [])"
    by (rule readUintRecord_long_word)
      (simp_all add: sample_file_def default_delim_def NUL_def isdigit_def)
  then have first: "readNodeIDRecord ?f [] = (False, sample_file ''\<newline>5 6\<newline>\<newline>'', [])"
    by (simp add: readNodeIDRecord_def sample_file_def)
  have second: "readNodeIDRecord (sample_file ''\<newline>5 6\<newline>\<newline>'') [] =
      (True, sample_file ''5 6\<newline>\<newline>'', [])"
    using readNodeIDRecord_blank [of "sample_file ''\<newline>5 6\<newline>\<newline>''" "''5 6\<newline>\<newline>''"]
    by (simp add: sample_file_def newline_def)
  have "readNodeset sample_command ?f [] 2 =
      Some (False, sample_file ''5 6\<newline>\<newline>'', [],
        report_line_error True 1 (cliSuccess [newline] sample_command))"
    unfolding readNodeset_def
    by (subst readNodeset_loop.simps, simp add: first, subst readNodeset_loop.simps, simp add: second)
  then have run: "readNodeset sample_command ?f [] 2 =
      Some (False, sample_file ''5 6\<newline>\<newline>'', [],
        sample_command\<lparr>lastStatusMessage := ''ERROR! error reading data set (line 1)\<newline>'',
          statusHistory := [''OK. \<newline>'', ''ERROR! error reading data set (line 1)\<newline>'']\<rparr>)"
    by (simp add: report_line_error_def cliError_def cliSuccess_def cliMessage_def message_buffer_def
        data_set_error_def gettext_def SUCCESS_STR_def ERROR_STR_def Let_def sample_command_def
        c_str_def NUL_def newline_def)
  have "readUintRecord (line_file (replicate 1023 (CHR ''x''))) [] =
      (False, line_file (replicate 1023 (CHR ''x''))\<lparr>unread := [newline]\<rparr>, [])"
    by (rule readUintRecord_long_word)
      (simp_all add: line_file_def default_delim_def NUL_def isdigit_def)
  then have "malformed_line 2 (replicate 1023 (CHR ''x''))"
    by (simp add: malformed_line_def line_record_def readNodeIDRecord_def)
  with run show ?thesis by simp
qed

text \<open>What the call has left unread when it returns.\<close>

theorem readNodeset_long_line_ends_block_witness:
  "unread (fst (snd (the (readNodeset sample_command
      (sample_file (replicate 1023 (CHR ''x'') @ ''\<newline>5 6\<newline>\<newline>'')) [] 2)))) = ''5 6\<newline>\<newline>''"
  using readNodeset_long_line_ends_block by (simp add: sample_file_def)

text \<open>
  What holds for lines that fit the line buffer.  Let a block consist of lines of at
  most 1022 characters which the reader does not take for blank (their C string is not
  empty), let it end with a blank line or with the end of the stream, and let at least
  one of its lines be malformed (the record reader fails on it, or its record has the
  wrong width).  Then \<^verbatim>\<open>readNodeset\<close> returns \<open>false\<close>; it has consumed the whole block
  and its terminator; the data set has gained the records before the first malformed
  line; and the call has recorded exactly two status messages, the initial success
  message and one ERROR message, which names the first malformed line and is the last
  status.
\<close>

lemma readNodeset_short_lines_block:
  assumes "\<forall>l\<in>set ls. newline \<notin> set l \<and> length l \<le> 1022 \<and> c_str l \<noteq> []"
    and "\<exists>l\<in>set ls. malformed_line n l"
    and "unread f = block_text ls @ tail"
    and "(\<exists>rest. tail = newline # rest) \<or> (tail = [] \<and> \<not> device_fails f)"
    and "\<not> eof_indicator f"
  shows "\<exists>f' ds' this'.
    readNodeset this f ds n = Some (False, f', ds', this') \<and>
    unread f' = drop 1 tail \<and>
    ds' = ds @ map (\<lambda>l. snd (line_record l)) (takeWhile (\<lambda>l. \<not> malformed_line n l) ls) \<and>
    statusHistory this' = statusHistory this @
      [message_buffer SUCCESS_STR [newline],
       message_buffer ERROR_STR
         (data_set_error (of_nat (Suc (length (takeWhile (\<lambda>l. \<not> malformed_line n l) ls)))))] \<and>
    lastStatusMessage this' = last (statusHistory this') \<and>
    length (filter isError (drop (length (statusHistory this)) (statusHistory this'))) = 1"
proof -
  let ?k = "length (takeWhile (\<lambda>l. \<not> malformed_line n l) ls)"
  let ?this' = "report_line_error True (1 + of_nat ?k) (cliSuccess [newline] this)"
  let ?ds' = "ds @ map (\<lambda>l. snd (line_record l)) (takeWhile (\<lambda>l. \<not> malformed_line n l) ls)"
  let ?g = "f\<lparr>unread := tail\<rparr>"
  from assms(2) have bad: "list_ex (malformed_line n) ls"
    by (simp add: list_ex_iff)
  have lines: "readNodeset this f ds n =
      readNodeset_loop ?g ?ds' n ?this' False (1 + of_nat (length ls))"
    unfolding readNodeset_def
    using readNodeset_loop_lines [OF assms(1,3,5), of ds n "cliSuccess [newline] this" True 1] bad
    by simp
  from assms(4) obtain f' where "readNodeIDRecord ?g [] = (True, f', [])" "unread f' = drop 1 tail"
  proof (elim disjE exE conjE)
    fix rest assume "tail = newline # rest"
    then have "readNodeIDRecord ?g [] = (True, ?g\<lparr>unread := rest\<rparr>, [])"
      "unread (?g\<lparr>unread := rest\<rparr>) = drop 1 tail"
      using assms(5) by (simp_all add: readNodeIDRecord_blank)
    then show thesis by (rule that)
  next
    assume "tail = []" "\<not> device_fails f"
    then have "readNodeIDRecord ?g [] = (True, ?g\<lparr>eof_indicator := True\<rparr>, [])"
      "unread (?g\<lparr>eof_indicator := True\<rparr>) = drop 1 tail"
      by (simp_all add: readNodeIDRecord_at_eof)
    then show thesis by (rule that)
  qed
  then have "readNodeset_loop ?g ?ds' n ?this' False (1 + of_nat (length ls)) =
      Some (False, f', ?ds', ?this')"
    by (subst readNodeset_loop.simps) simp
  with lines have run: "readNodeset this f ds n = Some (False, f', ?ds', ?this')"
    by simp
  have hist: "statusHistory ?this' = statusHistory this @
      [message_buffer SUCCESS_STR [newline],
       message_buffer ERROR_STR (data_set_error (of_nat (Suc ?k)))]"
    by (simp add: report_line_error_def cliError_def cliSuccess_def)
  have final: "lastStatusMessage ?this' = last (statusHistory ?this')"
    by (simp add: report_line_error_def cliError_def cliSuccess_def)
  have "length (filter isError (drop (length (statusHistory this)) (statusHistory ?this'))) = 1"
    unfolding hist by simp
  with run hist final \<open>unread f' = drop 1 tail\<close> show ?thesis by blast
qed

text \<open>An instance: the second and the third of four lines are malformed; the stream
  goes on behind the blank line.\<close>

lemma readNodeset_short_lines_block_run:
  "malformed_line 2 ''1 2 3'' \<and> malformed_line 2 ''x y'' \<and>
   (\<exists>f' this'. readNodeset sample_command
      (sample_file ''1 2\<newline>1 2 3\<newline>x y\<newline>5 6\<newline>\<newline>7 8\<newline>'') [] 2 =
        Some (False, f', [[1, 2]], this') \<and>
      unread f' = ''7 8\<newline>'' \<and>
      statusHistory this' =
        [''OK. \<newline>'', ''ERROR! error reading data set (line 2)\<newline>''] \<and>
      lastStatusMessage this' = ''ERROR! error reading data set (line 2)\<newline>'')"
proof -
  have rec: "line_record ''1 2'' = (True, [1, 2])" "line_record ''1 2 3'' = (True, [1, 2, 3])"
    "line_record ''x y'' = (False, [])" "line_record ''5 6'' = (True, [5, 6])"
    by (simp_all add: line_record_def line_file_def eval_defs)
  then have mal: "\<not> malformed_line 2 ''1 2''" "malformed_line 2 ''1 2 3''" "malformed_line 2 ''x y''"
    "\<not> malformed_line 2 ''5 6''"
    by (simp_all add: malformed_line_def)
  have lines: "\<forall>l\<in>set [''1 2'', ''1 2 3'', ''x y'', ''5 6''].
      newline \<notin> set l \<and> length l \<le> 1022 \<and> c_str l \<noteq> []"
    by (simp add: newline_def c_str_def NUL_def)
  have bad: "\<exists>l\<in>set [''1 2'', ''1 2 3'', ''x y'', ''5 6'']. malformed_line 2 l"
    using mal by simp
  have stream: "unread (sample_file ''1 2\<newline>1 2 3\<newline>x y\<newline>5 6\<newline>\<newline>7 8\<newline>'') =
      block_text [''1 2'', ''1 2 3'', ''x y'', ''5 6''] @ newline # ''7 8\<newline>''"
    by (simp add: sample_file_def block_text_def newline_def)
  have tail: "(\<exists>rest. newline # ''7 8\<newline>'' = newline # rest) \<or>
      (newline # ''7 8\<newline>'' = [] \<and>
        \<not> device_fails (sample_file ''1 2\<newline>1 2 3\<newline>x y\<newline>5 6\<newline>\<newline>7 8\<newline>''))"
    by simp
  have msg: "message_buffer SUCCESS_STR [newline] = ''OK. \<newline>''"
    "message_buffer ERROR_STR (data_set_error 2) = ''ERROR! error reading data set (line 2)\<newline>''"
    by (simp_all add: message_buffer_def SUCCESS_STR_def ERROR_STR_def data_set_error_def gettext_def
        c_str_def NUL_def newline_def)
  have fresh: "\<not> eof_indicator (sample_file ''1 2\<newline>1 2 3\<newline>x y\<newline>5 6\<newline>\<newline>7 8\<newline>'')"
    by (simp add: sample_file_def)
  have hist: "statusHistory sample_command = []"
    by (simp add: sample_command_def)
  from readNodeset_short_lines_block [OF lines bad stream tail fresh, of sample_command "[]"] mal rec
  show ?thesis
    by (auto simp: msg hist)
qed

subsection \<open>C3: node IDs and the base of the conversion\<close>

text \<open>
  C3 says that \<^verbatim>\<open>isValidNodeID\<close> accepts exactly the tokens of decimal digits whose value
  is not zero, the conversion agreeing with the validator's base-10 rule.  The code
  converts with \<^verbatim>\<open>strtoul(..., 0, 0)\<close>, and base 0 reads a leading zero as octal: the
  token \<^verbatim>\<open>08\<close> is a valid unsigned integer and parses to 0, so it is rejected as a node
  ID although its decimal value is 8, and \<^verbatim>\<open>010\<close> parses to 8.
\<close>

theorem isValidNodeID_leading_zero:
  "isValidUint ''08'' \<and> \<not> isValidNodeID ''08'' \<and> parseUint ''08'' = 0 \<and>
   isValidUint ''010'' \<and> parseUint ''010'' = 8"
  by (simp add: isValidNodeID_def eval_defs)

text \<open>The token \<^verbatim>\<open>0\<close> is a valid unsigned integer and not a valid node ID.\<close>

lemma isValidNodeID_zero:
  "isValidUint ''0'' \<and> \<not> isValidNodeID ''0''"
  by (simp add: isValidNodeID_def eval_defs)

subsection \<open>C4: a block of two arcs\<close>

text \<open>
  C4: for the input lines \<^verbatim>\<open>1 2\<close>, \<^verbatim>\<open>3 4\<close> and an empty line, with expected width
  2, \<^verbatim>\<open>readNodeset\<close> returns \<open>true\<close> and the data set \<open>[[1, 2], [3, 4]]\<close>: both records
  are appended in stream order and the blank line ends the block (the stream is left
  empty, the status is the initial success message).
\<close>

theorem readNodeset_two_arcs:
  "readNodeset this (sample_file ''1 2\<newline>3 4\<newline>\<newline>'') [] 2 =
     Some (True, sample_file [], [[1, 2], [3, 4]], cliSuccess [newline] this)"
  by (rule sample_block_run)

subsection \<open>C5: end of stream\<close>

text \<open>
  C5: at the end of a stream (no data left, on a device that reports end-of-file) the
  record reader succeeds with an empty record, and the loop of \<^verbatim>\<open>readNodeset\<close>, in
  whatever state it is, returns the \<open>ok\<close> flag and the data set accumulated so far, with
  the command unchanged: the same result as for a blank line in that state (a stream
  that still holds a blank line has its end-of-file indicator clear).
\<close>

theorem readNodeset_end_of_stream:
  assumes "unread f = []" "\<not> device_fails f"
  shows "readUintRecord f [] = (True, f\<lparr>eof_indicator := True\<rparr>, []) \<and>
    readNodeset_loop f ds n this ok lineno = Some (ok, f\<lparr>eof_indicator := True\<rparr>, ds, this) \<and>
    readNodeset_loop (f\<lparr>unread := [newline], eof_indicator := False\<rparr>) ds n this ok lineno =
      Some (ok, f\<lparr>unread := [], eof_indicator := False\<rparr>, ds, this)"
proof -
  have a: "readUintRecord f [] = (True, f\<lparr>eof_indicator := True\<rparr>, [])"
    using assms by (rule readUintRecord_at_eof)
  have "readNodeIDRecord f [] = (True, f\<lparr>eof_indicator := True\<rparr>, [])"
    using assms by (rule readNodeIDRecord_at_eof)
  then have b: "readNodeset_loop f ds n this ok lineno = Some (ok, f\<lparr>eof_indicator := True\<rparr>, ds, this)"
    by (subst readNodeset_loop.simps) simp
  have "readNodeIDRecord (f\<lparr>unread := [newline], eof_indicator := False\<rparr>) [] =
      (True, f\<lparr>unread := [], eof_indicator := False\<rparr>, [])"
    using readNodeIDRecord_blank [of "f\<lparr>unread := [newline], eof_indicator := False\<rparr>" "[]"] by simp
  then have c: "readNodeset_loop (f\<lparr>unread := [newline], eof_indicator := False\<rparr>) ds n this ok lineno =
      Some (ok, f\<lparr>unread := [], eof_indicator := False\<rparr>, ds, this)"
    by (subst readNodeset_loop.simps) simp
  from a b c show ?thesis by simp
qed

text \<open>An instance.\<close>

theorem readNodeset_end_of_stream_witness:
  "readNodeset_loop (sample_file []) [[1, 2]] 2 sample_command False 2 =
     Some (False, sample_file []\<lparr>eof_indicator := True\<rparr>, [[1, 2]], sample_command) \<and>
   readNodeset_loop (sample_file [newline]) [[1, 2]] 2 sample_command False 2 =
     Some (False, sample_file [], [[1, 2]], sample_command)"
  using readNodeset_end_of_stream [of "sample_file []" "[[1, 2]]" 2 sample_command False 2]
  by (simp add: sample_file_def)

subsection \<open>C6: no zero in a data set that was read\<close>

text \<open>
  C6: when \<^verbatim>\<open>readNodeset\<close> returns \<open>true\<close>, every record it has appended to the
  caller's data set holds only values from 1 to \<open>2^32 - 1\<close>; zero does not occur.
\<close>

theorem readNodeset_node_ids_nonzero:
  assumes "readNodeset this f ds n = Some (True, f', ds', this')"
  shows "\<exists>new. ds' = ds @ new \<and>
    (\<forall>r\<in>set new. \<forall>v\<in>set r. v \<noteq> 0 \<and> 1 \<le> unat v \<and> unat v \<le> 2 ^ 32 - 1)"
proof -
  from assms readNodeset_loop_records [of f ds n "cliSuccess [newline] this" True 1 "(True, f', ds', this')"]
  obtain new where new: "ds' = ds @ new" "\<forall>r\<in>set new. length r = unat n \<and> 0 \<notin> set r"
    by (auto simp: readNodeset_def)
  have "v \<noteq> 0 \<and> 1 \<le> unat v \<and> unat v \<le> 2 ^ 32 - 1" if "r \<in> set new" "v \<in> set r" for r v
  proof -
    from that new(2) have nz: "v \<noteq> 0" by auto
    then have "0 < unat v" by (simp add: unat_gt_0)
    moreover have "unat v < 2 ^ 32" using unsigned_less [of v, where ?'a = nat] by simp
    ultimately show ?thesis using nz by simp
  qed
  with new(1) show ?thesis by blast
qed

text \<open>An instance.\<close>

theorem readNodeset_node_ids_nonzero_witness:
  "readNodeset sample_command (sample_file ''1 2\<newline>3 4\<newline>\<newline>'') [] 2 =
     Some (True, sample_file [], [[1, 2], [3, 4]], cliSuccess [newline] sample_command) \<and>
   (\<exists>new. [[1, 2], [3, 4]] = [] @ new \<and>
      list_all (list_all (\<lambda>v :: uint32_t. v \<noteq> 0 \<and> 1 \<le> unat v \<and> unat v \<le> 2 ^ 32 - 1)) new)"
  using readNodeset_node_ids_nonzero [OF sample_block_run [of sample_command]]
    sample_block_run [of sample_command]
  by (simp add: list_all_iff)

subsection \<open>C7: a line of separators\<close>

text \<open>
  C7 says that on every line that is not empty and consists of spaces, tabs and commas
  only, the record reader fails and does not treat the line as the blank line that ends
  a block.  The code does treat such a line as the end of the block when the line has
  1023 characters: the first read takes the 1023 separators and fails, and the next
  read takes the newline that is left of the same line, which is an empty record, so
  \<^verbatim>\<open>readNodeset\<close> returns there with the line \<^verbatim>\<open>5 6\<close> and the blank line behind it
  unread.  This is the defect of C2 again: a line that does not fit the line buffer is
  read in pieces.
\<close>

theorem readNodeset_long_separator_line_ends_block:
  "readUintRecord (sample_file (replicate 1023 (CHR 0x20) @ ''\<newline>5 6\<newline>\<newline>'')) [] =
     (False, sample_file ''\<newline>5 6\<newline>\<newline>'', []) \<and>
   readUintRecord (sample_file ''\<newline>5 6\<newline>\<newline>'') [] = (True, sample_file ''5 6\<newline>\<newline>'', []) \<and>
   readNodeset sample_command
      (sample_file (replicate 1023 (CHR 0x20) @ ''\<newline>5 6\<newline>\<newline>'')) [] 2 =
     Some (False, sample_file ''5 6\<newline>\<newline>'', [],
       sample_command\<lparr>lastStatusMessage := ''ERROR! error reading data set (line 1)\<newline>'',
         statusHistory := [''OK. \<newline>'', ''ERROR! error reading data set (line 1)\<newline>'']\<rparr>)"
proof -
  let ?f = "sample_file (replicate 1023 (CHR 0x20) @ ''\<newline>5 6\<newline>\<newline>'')"
  have "readUintRecord ?f [] = (False, ?f\<lparr>unread := ''\<newline>5 6\<newline>\<newline>''\<rparr>, [])"
    by (rule readUintRecord_long_separators) (simp_all add: sample_file_def separators_def)
  then have a: "readUintRecord ?f [] = (False, sample_file ''\<newline>5 6\<newline>\<newline>'', [])"
    by (simp add: sample_file_def)
  have b: "readUintRecord (sample_file ''\<newline>5 6\<newline>\<newline>'') [] = (True, sample_file ''5 6\<newline>\<newline>'', [])"
    using readUintRecord_blank [of "sample_file ''\<newline>5 6\<newline>\<newline>''" "''5 6\<newline>\<newline>''" "[]"]
    by (simp add: sample_file_def newline_def)
  from a have first: "readNodeIDRecord ?f [] = (False, sample_file ''\<newline>5 6\<newline>\<newline>'', [])"
    by (simp add: readNodeIDRecord_def)
  from b have second: "readNodeIDRecord (sample_file ''\<newline>5 6\<newline>\<newline>'') [] =
      (True, sample_file ''5 6\<newline>\<newline>'', [])"
    by (simp add: readNodeIDRecord_def)
  have "readNodeset sample_command ?f [] 2 =
      Some (False, sample_file ''5 6\<newline>\<newline>'', [],
        report_line_error True 1 (cliSuccess [newline] sample_command))"
    unfolding readNodeset_def
    by (subst readNodeset_loop.simps, simp add: first, subst readNodeset_loop.simps, simp add: second)
  then have "readNodeset sample_command ?f [] 2 =
      Some (False, sample_file ''5 6\<newline>\<newline>'', [],
        sample_command\<lparr>lastStatusMessage := ''ERROR! error reading data set (line 1)\<newline>'',
          statusHistory := [''OK. \<newline>'', ''ERROR! error reading data set (line 1)\<newline>'']\<rparr>)"
    by (simp add: report_line_error_def cliError_def cliSuccess_def cliMessage_def message_buffer_def
        data_set_error_def gettext_def SUCCESS_STR_def ERROR_STR_def Let_def sample_command_def
        c_str_def NUL_def newline_def)
  with a b show ?thesis by simp
qed

text \<open>
  What holds for every line of separators, of any length: the first read fails on it
  and leaves the caller's vector as it was, and the loop of \<^verbatim>\<open>readNodeset\<close> goes on
  with \<open>ok\<close> false.  For a line that fits the line buffer the read also leaves the
  stream behind the line (\<open>readUintRecord_short_separators\<close>).
\<close>

lemma readUintRecord_separators_fail:
  assumes "l \<noteq> []" "set l \<subseteq> separators"
    and "unread f = l @ rest" "rest = [] \<or> hd rest = newline" "\<not> eof_indicator f"
  shows "\<exists>f'. readUintRecord f ret = (False, f', ret) \<and>
    readNodeset_loop f ds n this ok lineno =
      readNodeset_loop f' ds n (report_line_error ok lineno this) False (lineno + 1)"
proof -
  from fgets_separators [OF assms(1-5)]
  consider (null) f' where "fgets 1024 f = (None, f')" "eof_indicator f' = eof_indicator f"
    | (buffer) buf f' l' where "fgets 1024 f = (Some buf, f')" "buf = l' \<or> buf = l' @ [newline]"
        "l' \<noteq> []" "set l' \<subseteq> separators"
    by blast
  then obtain f' where r: "\<And>ret. readUintRecord f ret = (False, f', ret)"
  proof cases
    case null
    with assms(5) have "readUintRecord f ret = (False, f', ret)" for ret
      by (simp add: readUintRecord_def feof_def)
    then show thesis by (rule that)
  next
    case buffer
    then have "readUintRecord f ret = (False, f', ret)" for ret
      by (rule readUintRecord_separator_buffer)
    then show thesis by (rule that)
  qed
  then have "readNodeIDRecord f [] = (False, f', [])"
    by (simp add: readNodeIDRecord_def)
  then have "readNodeset_loop f ds n this ok lineno =
      readNodeset_loop f' ds n (report_line_error ok lineno this) False (lineno + 1)"
    by (subst readNodeset_loop.simps) simp
  with r show ?thesis by blast
qed

text \<open>An instance.\<close>

lemma readUintRecord_separators_fail_run:
  "'' ,\<newline>'' = '' ,'' @ [newline] \<and>
   readUintRecord (sample_file '' ,\<newline>'') [7] = (False, sample_file [], [7])"
proof -
  have "\<exists>f'. readUintRecord (sample_file '' ,\<newline>'') [7] = (False, f', [7]) \<and>
    readNodeset_loop (sample_file '' ,\<newline>'') [] 2 sample_command True 1 =
      readNodeset_loop f' [] 2 (report_line_error True 1 sample_command) False (1 + 1)"
    by (rule readUintRecord_separators_fail [where l = "'' ,''" and rest = "[newline]"])
      (simp_all add: separators_def sample_file_def newline_def)
  moreover have "fst (snd (readUintRecord (sample_file '' ,\<newline>'') [7])) = sample_file []"
    by (simp add: sample_file_def eval_defs)
  ultimately show ?thesis
    by (auto simp: newline_def)
qed

subsection \<open>C8: syntaxError\<close>

text \<open>
  C8: \<^verbatim>\<open>syntaxError\<close> records the status \<^verbatim>\<open>FAILED! Syntax: \<close> followed by the command's
  synopsis and a newline; it writes that message to the output if the command's return
  type is \<^verbatim>\<open>RT_OTHER\<close>, and leaves the output as it was for every other return type.
\<close>

theorem syntaxError_status:
  "lastStatusMessage (fst (syntaxError this cout)) =
      FAIL_STR @ '' Syntax: '' @ getSynopsis this @ [newline] \<and>
   statusHistory (fst (syntaxError this cout)) =
      statusHistory this @ [lastStatusMessage (fst (syntaxError this cout))] \<and>
   snd (syntaxError this cout) =
      (if getReturnType this = RT_OTHER
       then cout @ lastStatusMessage (fst (syntaxError this cout)) else cout) \<and>
   (snd (syntaxError this cout) \<noteq> cout \<longleftrightarrow> getReturnType this = RT_OTHER)"
  by (simp add: syntaxError_def Let_def gettext_def FAIL_STR_def)

text \<open>An instance.\<close>

theorem syntaxError_status_witness:
  "syntaxError sample_command ''> '' =
     (sample_command\<lparr>lastStatusMessage := ''FAILED! Syntax: add-arcs {:|<}\<newline>'',
        statusHistory := [''FAILED! Syntax: add-arcs {:|<}\<newline>'']\<rparr>,
      ''> FAILED! Syntax: add-arcs {:|<}\<newline>'') \<and>
   snd (syntaxError (sample_command\<lparr>getReturnType := RT_NODE_LIST\<rparr>) ''> '') = ''> ''"
  using syntaxError_status [of sample_command "''> ''"]
    syntaxError_status [of "sample_command\<lparr>getReturnType := RT_NODE_LIST\<rparr>" "''> ''"]
  by (simp add: sample_command_def FAIL_STR_def newline_def prod_eq_iff syntaxError_def Let_def gettext_def)

subsection \<open>C9: readUintRecord is not atomic\<close>

text \<open>
  C9: when \<^verbatim>\<open>readUintRecord\<close> has read a line and fails because one of its tokens is
  not a valid unsigned integer, the caller's vector has gained the parsed values of all
  tokens before the first invalid one; nothing is rolled back.  (\<^verbatim>\<open>readNodeset\<close> clears
  its vector before every call.)
\<close>

theorem readUintRecord_not_atomic:
  assumes "fgets 1024 f = (Some buf, f')"
    and "\<exists>s\<in>set (splitString (chomp buf)). \<not> isValidUint s"
  shows "readUintRecord f ret =
    (False, f', ret @ map parseUint (takeWhile isValidUint (splitString (chomp buf))))"
proof -
  from assms(2) have "\<not> list_all isValidUint (splitString (chomp buf))"
    by (simp add: list_all_iff)
  moreover from this have "splitString (chomp buf) \<noteq> []"
    by auto
  ultimately show ?thesis
    by (simp add: readUintRecord_def assms(1) push_tokens_eq Let_def)
qed

text \<open>An instance: the third token of the line is not a number.\<close>

theorem readUintRecord_not_atomic_witness:
  "fgets 1024 (sample_file ''1 2 x 4\<newline>5 6\<newline>'') =
     (Some ''1 2 x 4\<newline>'', sample_file ''5 6\<newline>'') \<and>
   splitString (chomp ''1 2 x 4\<newline>'') = [''1'', ''2'', ''x'', ''4''] \<and> \<not> isValidUint ''x'' \<and>
   readUintRecord (sample_file ''1 2 x 4\<newline>5 6\<newline>'') [7] =
     (False, sample_file ''5 6\<newline>'', [7, 1, 2])"
proof -
  have g: "fgets 1024 (sample_file ''1 2 x 4\<newline>5 6\<newline>'') =
      (Some ''1 2 x 4\<newline>'', sample_file ''5 6\<newline>'')"
    by (simp add: sample_file_def fgets_def newline_def)
  have s: "splitString (chomp ''1 2 x 4\<newline>'') = [''1'', ''2'', ''x'', ''4'']"
    by (simp add: eval_defs)
  have v: "isValidUint ''1''" "isValidUint ''2''" "\<not> isValidUint ''x''"
    by (simp_all add: eval_defs)
  have p: "parseUint ''1'' = 1" "parseUint ''2'' = 2"
    by (simp_all add: eval_defs)
  have "\<exists>s\<in>set (splitString (chomp ''1 2 x 4\<newline>'')). \<not> isValidUint s"
    by (simp add: s v)
  from readUintRecord_not_atomic [OF g this, of "[7]"] g s v p
  show ?thesis by simp
qed

subsection \<open>C10: findCommand\<close>

text \<open>
  C10: in a registry of fewer than \<open>2^32\<close> commands, \<^verbatim>\<open>findCommand\<close> returns the
  command at the first index whose name equals the given name (string equality, which
  is case-sensitive), and the null pointer when no command has that name.  With two
  commands of one name it returns the one registered first.
\<close>

theorem findCommand_first_match:
  assumes "length (commands cli) < 2 ^ 32"
  shows "(i < length (commands cli) \<and> getName (commands cli ! i) = name \<and>
      (\<forall>j<i. getName (commands cli ! j) \<noteq> name) \<longrightarrow>
        findCommand cli name = Some (Some (commands cli ! i))) \<and>
    ((\<forall>c\<in>set (commands cli). getName c \<noteq> name) \<longrightarrow> findCommand cli name = Some None)"
proof (intro conjI impI)
  assume "i < length (commands cli) \<and> getName (commands cli ! i) = name \<and>
      (\<forall>j<i. getName (commands cli ! j) \<noteq> name)"
  then have "find (\<lambda>c. getName c = name) (commands cli) = Some (commands cli ! i)"
    unfolding find_Some_iff by blast
  then show "findCommand cli name = Some (Some (commands cli ! i))"
    by (simp add: findCommand_find [OF assms])
next
  assume "\<forall>c\<in>set (commands cli). getName c \<noteq> name"
  then have "find (\<lambda>c. getName c = name) (commands cli) = None"
    by (simp add: find_None_iff)
  then show "findCommand cli name = Some None"
    by (simp add: findCommand_find [OF assms])
qed

text \<open>An instance.\<close>

theorem findCommand_first_match_witness:
  "findCommand \<lparr>doQuit = False,
      commands = [sample_command\<lparr>getName := ''help''\<rparr>, sample_command,
                  sample_command\<lparr>getHelpText := ''duplicate''\<rparr>]\<rparr> ''add-arcs'' =
     Some (Some sample_command) \<and>
   findCommand \<lparr>doQuit = False,
      commands = [sample_command\<lparr>getName := ''help''\<rparr>, sample_command,
                  sample_command\<lparr>getHelpText := ''duplicate''\<rparr>]\<rparr> ''Add-Arcs'' = Some None"
  using findCommand_first_match [of "\<lparr>doQuit = False,
      commands = [sample_command\<lparr>getName := ''help''\<rparr>, sample_command,
                  sample_command\<lparr>getHelpText := ''duplicate''\<rparr>]\<rparr>" 1 "''add-arcs''"]
    findCommand_first_match [of "\<lparr>doQuit = False,
      commands = [sample_command\<lparr>getName := ''help''\<rparr>, sample_command,
                  sample_command\<lparr>getHelpText := ''duplicate''\<rparr>]\<rparr>" 0 "''Add-Arcs''"]
  by (simp add: sample_command_def)

end
